theory Spec2Isabelle
  imports Main "HOL-Library.AList"
begin

section \<open>JavaScript values and string helpers\<close>

text \<open>
  The admin crawl routes receive JSON (request bodies) and strings (query parameters,
  worker output). A JSON value is modelled as a datatype; \<open>undefined\<close> (a field that is
  not there) is \<open>None\<close> of \<open>json option\<close>. JSON numbers are kept as integers: the
  routes only test them for truthiness and never compute with them.
\<close>

datatype json =
    JNull
  | JBool bool
  | JNum int
  | JStr string
  | JArr "json list"
  | JObj "(string \<times> json) list"

text \<open>JavaScript truthiness, as tested by \<open>!operation\<close>, \<open>!type\<close>, \<open>!url\<close>.\<close>

fun truthy :: "json option \<Rightarrow> bool" where
  "truthy None = False"
| "truthy (Some JNull) = False"
| "truthy (Some (JBool b)) = b"
| "truthy (Some (JNum n)) = (n \<noteq> 0)"
| "truthy (Some (JStr s)) = (s \<noteq> [])"
| "truthy (Some (JArr xs)) = True"
| "truthy (Some (JObj fs)) = True"

text \<open>
  \<open>["a", "b"].includes(v)\<close> on an array of string literals: strict equality, so only a
  string value can be a member.
\<close>

fun array_includes :: "string list \<Rightarrow> json option \<Rightarrow> bool" where
  "array_includes xs (Some (JStr s)) = (s \<in> set xs)"
| "array_includes xs v = False"

text \<open>
  The destructuring \<open>const { operation } = body\<close> (and \<open>{ type, url }\<close>) of a body that is
  not \<open>null\<close>: an object gives the field (the last one when a key is repeated in the JSON
  text) or \<open>undefined\<close>; strings, numbers, booleans and arrays have none of the properties
  \<open>operation\<close>, \<open>type\<close>, \<open>url\<close> the routes read. Destructuring \<open>null\<close> throws, which the
  handlers below treat before they call this function.
\<close>

fun body_field :: "json \<Rightarrow> string \<Rightarrow> json option" where
  "body_field (JObj fs) k = map_of (rev fs) k"
| "body_field v k = None"

text \<open>\<open>s.startsWith(t)\<close> and \<open>s.includes(t)\<close> on strings.\<close>

fun starts_with :: "string \<Rightarrow> string \<Rightarrow> bool" where
  "starts_with s [] = True"
| "starts_with [] (c # cs) = False"
| "starts_with (x # xs) (c # cs) = (x = c \<and> starts_with xs cs)"

fun str_includes :: "string \<Rightarrow> string \<Rightarrow> bool" where
  "str_includes [] t = (t = [])"
| "str_includes (x # xs) t = (starts_with (x # xs) t \<or> str_includes xs t)"

text \<open>
  \<open>s.trim()\<close>, on the ASCII white space (space, tab, line feed, vertical tab, form feed,
  carriage return). The markers searched in the trimmed text are ASCII and neither start
  nor end with white space.
\<close>

definition is_space :: "char \<Rightarrow> bool" where
  "is_space c = (c \<in> set [CHR '' '', CHR 0x09, CHR 0x0A, CHR 0x0B, CHR 0x0C, CHR 0x0D])"

definition trim :: "string \<Rightarrow> string" where
  "trim s = rev (dropWhile is_space (rev (dropWhile is_space s)))"

text \<open>Decimal rendering of a number inside a template string.\<close>

definition digit :: "nat \<Rightarrow> char" where
  "digit n = ''0123456789'' ! (n mod 10)"

function show_nat :: "nat \<Rightarrow> string" where
  "show_nat n = (if n < 10 then [digit n] else show_nat (n div 10) @ [digit n])"
  by pat_completeness auto
termination
  by (relation "measure id") auto

declare show_nat.simps [simp del]

text \<open>
  The exit code handed to a \<open>close\<close> listener: a number, or \<open>null\<close> when the process was
  ended by a signal. \<open>`${code}`\<close> renders it.
\<close>

fun show_code :: "nat option \<Rightarrow> string" where
  "show_code None = ''null''"
| "show_code (Some n) = show_nat n"

section \<open>Requester and responses\<close>

text \<open>
  What the Supabase client returns to a route: \<open>auth.getUser()\<close> gives \<open>user\<close> and
  \<open>authError\<close>; the query on \<open>user_profiles\<close> for that user gives \<open>profile\<close> (\<open>null\<close> when
  there is no row), of which the routes read \<open>role\<close> and \<open>email\<close>.
\<close>

record profile =
  role :: "string option"
  email :: "string option"

record requester =
  authError :: bool
  user :: "string option"
  profile :: "profile option"

text \<open>\<open>profile?.role === "admin" || profile?.email?.includes("admin")\<close>\<close>

definition isAdmin :: "profile option \<Rightarrow> bool" where
  "isAdmin p =
     (case p of
        None \<Rightarrow> False
      | Some pr \<Rightarrow>
          role pr = Some ''admin'' \<or>
          (case email pr of None \<Rightarrow> False | Some e \<Rightarrow> str_includes e ''admin''))"

section \<open>The job registry\<close>

datatype job_status = Running | Completed | Failed

record stats =
  total_processed :: nat
  successful :: nat
  failed :: nat
  duplicates :: nat

record crawl_job =
  jobId :: string
  operation :: string
  status :: job_status
  progress :: nat
  message :: string
  stats :: "stats option"
  error :: "string option"

text \<open>
  \<open>activeCrawls\<close> is a JavaScript \<open>Map\<close>: \<open>get\<close> is \<^const>\<open>map_of\<close>, \<open>set\<close> is
  \<^const>\<open>AList.update\<close> (an existing key keeps its place), \<open>delete\<close> is
  \<^const>\<open>AList.delete\<close>.
\<close>

type_synonym job_store = "(string \<times> crawl_job) list"

datatype crawl_data =
    ParsedData json
  | RawOutput string string

datatype body =
    ErrorBody string
  | CaughtBody string
  | StartedBody string string
  | StatusBody crawl_job
  | CrawledBody string crawl_data
  | FailureBody string

text \<open>
  A response is \<open>NextResponse.json(body, { status })\<close>; the status defaults to 200.
  \<open>CaughtBody\<close> is the body built in a \<open>catch\<close> block: its \<open>error\<close> text, without the
  \<open>details\<close> field that repeats the message of the exception.
\<close>

datatype response = Response nat body

text \<open>The authentication and admin gate that opens each of the three routes.\<close>

definition require_admin :: "requester \<Rightarrow> response option" where
  "require_admin r =
     (if authError r \<or> user r = None then Some (Response 401 (ErrorBody ''Unauthorized''))
      else if \<not> isAdmin (profile r)
        then Some (Response 403 (ErrorBody ''Forbidden: Admin access required''))
      else None)"

section \<open>The operation trigger and its worker listeners\<close>

text \<open>
  The state around the registry: the orchestrator processes that are alive (by job id),
  the pending \<open>setTimeout\<close> callbacks (due time in milliseconds and the job id they
  delete), the clock, the ids \<open>uuidv4()\<close> has produced so far, and whether the status
  route has already cached its reference to the registry.
\<close>

record system =
  activeCrawls :: job_store
  workers :: "string list"
  timers :: "(nat \<times> string) list"
  now :: nat
  issued :: "string list"
  statusRouteLoaded :: bool

definition init :: system where
  "init = \<lparr>activeCrawls = [], workers = [], timers = [], now = 0, issued = [],
           statusRouteLoaded = False\<rparr>"

definition operations :: "string list" where
  "operations = [''daily-update'', ''full-crawl'', ''process-content'']"

text \<open>The string of a value that passed the \<open>includes\<close> test, for the template strings.\<close>

fun str_of :: "json option \<Rightarrow> string" where
  "str_of (Some (JStr s)) = s"
| "str_of v = []"

text \<open>
  \<open>POST\<close> of the start route. \<open>b\<close> is the result of \<open>request.json()\<close> (\<open>None\<close> when it
  throws) and \<open>u\<close> the id that \<open>uuidv4()\<close> returns if it is called. A body that cannot be
  parsed or is \<open>null\<close> ends in the \<open>catch\<close> block.
\<close>

definition POST_start :: "requester \<Rightarrow> json option \<Rightarrow> string \<Rightarrow> system \<Rightarrow> response \<times> system" where
  "POST_start r b u s =
     (case require_admin r of
        Some resp \<Rightarrow> (resp, s)
      | None \<Rightarrow>
         (case b of
            None \<Rightarrow> (Response 500 (CaughtBody ''Failed to start crawl''), s)
          | Some JNull \<Rightarrow> (Response 500 (CaughtBody ''Failed to start crawl''), s)
          | Some bv \<Rightarrow>
             (let opn = body_field bv ''operation'' in
              if \<not> truthy opn \<or> \<not> array_includes operations opn
              then (Response 400 (ErrorBody
                      ''Invalid operation. Must be: daily-update, full-crawl, or process-content''), s)
              else
                (Response 200 (StartedBody u (''Started '' @ str_of opn @ '' operation'')),
                 s\<lparr>activeCrawls :=
                      AList.update u
                        \<lparr>jobId = u, operation = str_of opn, status = Running, progress = 0,
                         message = ''Starting '' @ str_of opn @ ''...'',
                         stats = None, error = None\<rparr>
                        (activeCrawls s),
                    workers := u # workers s,
                    issued := u # issued s\<rparr>))))"

text \<open>The \<open>stdout\<close> listener of the worker of job \<open>j\<close>, on one chunk of output.\<close>

definition on_stdout :: "string \<Rightarrow> string \<Rightarrow> job_store \<Rightarrow> job_store" where
  "on_stdout j data st =
     (let msg = trim data in
      case map_of st j of
        None \<Rightarrow> st
      | Some crawlJob \<Rightarrow>
          AList.update j
            (if str_includes msg ''Crawling AWS Blogs''
               then crawlJob\<lparr>progress := 25, message := ''Crawling AWS Blogs...''\<rparr>
             else if str_includes msg ''Crawling AWS YouTube''
               then crawlJob\<lparr>progress := 50, message := ''Crawling YouTube videos...''\<rparr>
             else if str_includes msg ''Crawling AWS Documentation''
               then crawlJob\<lparr>progress := 75, message := ''Crawling AWS Documentation...''\<rparr>
             else if str_includes msg ''Processing content''
               then crawlJob\<lparr>progress := 90, message := ''Processing content with AI...''\<rparr>
             else crawlJob)
            st)"

text \<open>The \<open>stderr\<close> listener only logs.\<close>

definition on_stderr :: "string \<Rightarrow> string \<Rightarrow> job_store \<Rightarrow> job_store" where
  "on_stderr j data st = st"

text \<open>The \<open>close\<close> listener, up to the point where it arms the clean-up timer.\<close>

definition on_close :: "string \<Rightarrow> nat option \<Rightarrow> job_store \<Rightarrow> job_store" where
  "on_close j code st =
     (case map_of st j of
        None \<Rightarrow> st
      | Some crawlJob \<Rightarrow>
          AList.update j
            (if code = Some 0
               then crawlJob\<lparr>status := Completed, progress := 100,
                      message := ''Crawl completed successfully!'',
                      stats := Some \<lparr>total_processed = 0, successful = 0, failed = 0,
                                     duplicates = 0\<rparr>\<rparr>
             else crawlJob\<lparr>status := Failed, progress := 0, message := ''Crawl failed'',
                    error := Some (''Process exited with code '' @ show_code code)\<rparr>)
            st)"

definition retention_ms :: nat where
  "retention_ms = 10 * 60 * 1000"

section \<open>The status query\<close>

text \<open>
  \<open>GET\<close> of the status route; \<open>q\<close> is \<open>searchParams.get("jobId")\<close>, \<open>None\<close> for \<open>null\<close>.
  An empty string is falsy, like \<open>null\<close>. \<open>getActiveCrawls\<close> caches the imported
  registry on its first call.
\<close>

definition GET_status :: "requester \<Rightarrow> string option \<Rightarrow> system \<Rightarrow> response \<times> system" where
  "GET_status r q s =
     (case require_admin r of
        Some resp \<Rightarrow> (resp, s)
      | None \<Rightarrow>
         (case q of
            None \<Rightarrow> (Response 400 (ErrorBody ''Missing jobId parameter''), s)
          | Some j \<Rightarrow>
              if j = [] then (Response 400 (ErrorBody ''Missing jobId parameter''), s)
              else
                (case map_of (activeCrawls s) j of
                   None \<Rightarrow> (Response 404 (ErrorBody ''Job not found or expired''),
                            s\<lparr>statusRouteLoaded := True\<rparr>)
                 | Some crawlJob \<Rightarrow> (Response 200 (StatusBody crawlJob),
                                     s\<lparr>statusRouteLoaded := True\<rparr>))))"

section \<open>Events of the running server\<close>

text \<open>
  What can happen to the registry: a request to either route, a chunk of output or the
  end of a live worker, a due timer, and the passing of time. A worker emits \<open>close\<close>
  once, after its output streams have ended; a timer fires once, not before it is due;
  \<open>uuidv4()\<close> does not repeat an id.
\<close>

datatype event =
    PostStart requester "json option" string
  | GetStatus requester "string option"
  | StdoutData string string
  | StderrData string string
  | Close string "nat option"
  | TimerFires string
  | Tick nat

fun enabled :: "event \<Rightarrow> system \<Rightarrow> bool" where
  "enabled (PostStart r b u) s = (u \<notin> set (issued s))"
| "enabled (GetStatus r q) s = True"
| "enabled (StdoutData j d) s = (j \<in> set (workers s))"
| "enabled (StderrData j d) s = (j \<in> set (workers s))"
| "enabled (Close j c) s = (j \<in> set (workers s))"
| "enabled (TimerFires j) s = (\<exists>d \<in> set (timers s). snd d = j \<and> fst d \<le> now s)"
| "enabled (Tick n) s = True"

fun step :: "event \<Rightarrow> system \<Rightarrow> system" where
  "step (PostStart r b u) s = snd (POST_start r b u s)"
| "step (GetStatus r q) s = snd (GET_status r q s)"
| "step (StdoutData j d) s = s\<lparr>activeCrawls := on_stdout j d (activeCrawls s)\<rparr>"
| "step (StderrData j d) s = s\<lparr>activeCrawls := on_stderr j d (activeCrawls s)\<rparr>"
| "step (Close j c) s =
     s\<lparr>activeCrawls := on_close j c (activeCrawls s),
       workers := removeAll j (workers s),
       timers := timers s @ [(now s + retention_ms, j)]\<rparr>"
| "step (TimerFires j) s =
     s\<lparr>activeCrawls := AList.delete j (activeCrawls s),
       timers := filter (\<lambda>d. snd d \<noteq> j) (timers s)\<rparr>"
| "step (Tick n) s = s\<lparr>now := now s + n\<rparr>"

fun run :: "event list \<Rightarrow> system \<Rightarrow> system option" where
  "run [] s = Some s"
| "run (e # es) s = (if enabled e s then run es (step e s) else None)"

section \<open>The ad-hoc crawl of one URL\<close>

text \<open>
  How a crawler that was spawned behaves, as the route sees it: the time in milliseconds
  after the spawn at which \<open>close\<close> is emitted (\<open>None\<close>: never), the exit code, all it
  wrote, and whether it goes on running when it receives \<open>SIGTERM\<close> (it handles or blocks
  the signal) instead of ending. The record describes a process that was started: when
  the interpreter cannot be started at all, the child emits an \<open>error\<close> event, for which
  the route registers no listener, and what follows is decided outside the route.
\<close>

record worker_run =
  exit_after :: "nat option"
  exit_code :: "nat option"
  stdout :: string
  stderr :: string
  ignores_sigterm :: bool

text \<open>\<open>spawn("python", [crawlerScript, flag, url])\<close>\<close>

datatype spawn = Spawn string string json

datatype crawl_result = CrawlSuccess crawl_data | CrawlError string

text \<open>
  What a request to the custom route brings about: the answer, the processes that were
  spawned, whether \<open>pythonProcess.kill()\<close> sent its signal (\<open>SIGTERM\<close>, the default) to
  a live worker, whether the worker is still running once the route has answered and the
  signal has been delivered, and how long the route waited for the crawler.
\<close>

record custom_outcome =
  response :: response
  spawned :: "spawn list"
  sigterm_sent :: bool
  worker_survives :: bool
  waited :: nat

definition timeout_ms :: nat where
  "timeout_ms = 2 * 60 * 1000"

text \<open>
  The match of \<open>stdout\<close> against an opening brace, any characters, a closing brace: from
  the first opening brace to the last closing brace after it.
\<close>

definition json_match :: "string \<Rightarrow> string option" where
  "json_match s =
     (case dropWhile (\<lambda>c. c \<noteq> CHR ''{'') s of
        [] \<Rightarrow> None
      | c # cs \<Rightarrow>
          (case rev (dropWhile (\<lambda>c. c \<noteq> CHR ''}'') (rev cs)) of
             [] \<Rightarrow> None
           | m \<Rightarrow> Some (c # m)))"

text \<open>
  What the \<open>close\<close> listener resolves the promise with. \<open>JSON_parse\<close> is \<open>JSON.parse\<close>,
  \<open>None\<close> when it throws.
\<close>

definition close_result :: "(string \<Rightarrow> json option) \<Rightarrow> worker_run \<Rightarrow> crawl_result" where
  "close_result JSON_parse w =
     (if exit_code w = Some 0
      then (case json_match (stdout w) of
              None \<Rightarrow> CrawlSuccess (ParsedData (JObj []))
            | Some m \<Rightarrow>
                (case JSON_parse m of
                   Some d \<Rightarrow> CrawlSuccess (ParsedData d)
                 | None \<Rightarrow> CrawlSuccess (RawOutput ''Content crawled successfully'' (stdout w))))
      else CrawlError
             (if stderr w \<noteq> [] then stderr w
              else ''Process exited with code '' @ show_code (exit_code w)))"

text \<open>
  The promise is resolved by whichever comes first, the \<open>close\<close> listener or the two-minute
  timer, which calls \<open>pythonProcess.kill()\<close> and resolves at once, without waiting for
  the process to end; a later \<open>resolve\<close> has no effect, and \<open>kill()\<close> on a process that
  has ended sends nothing. The result is the outcome, whether the timer came first and
  called \<open>kill()\<close> on the live worker, and how long the route waited.
\<close>

definition await_crawl ::
  "(string \<Rightarrow> json option) \<Rightarrow> worker_run \<Rightarrow> crawl_result \<times> bool \<times> nat" where
  "await_crawl JSON_parse w =
     (case exit_after w of
        None \<Rightarrow> (CrawlError ''Crawl timeout after 2 minutes'', True, timeout_ms)
      | Some t \<Rightarrow>
          if t \<le> timeout_ms then (close_result JSON_parse w, False, t)
          else (CrawlError ''Crawl timeout after 2 minutes'', True, timeout_ms))"

text \<open>The \<open>switch\<close> on the type.\<close>

definition crawler_for :: "string \<Rightarrow> json \<Rightarrow> spawn option" where
  "crawler_for ty url =
     (if ty = ''blog'' then Some (Spawn ''crawlers/aws_blogs_crawler.py'' ''--url'' url)
      else if ty = ''video''
        then Some (Spawn ''crawlers/aws_youtube_crawler.py'' ''--video-url'' url)
      else if ty = ''playlist''
        then Some (Spawn ''crawlers/aws_youtube_crawler.py'' ''--playlist-url'' url)
      else None)"

definition reject :: "response \<Rightarrow> custom_outcome" where
  "reject resp =
     \<lparr>response = resp, spawned = [], sigterm_sent = False, worker_survives = False,
      waited = 0\<rparr>"

text \<open>
  \<open>POST\<close> of the custom route. \<open>url_parses v\<close> says that \<open>new URL(v)\<close> does not throw;
  \<open>spawn_throws sp\<close> says that \<open>spawn\<close> throws on these arguments instead of starting a
  process (as it does on a string with a NUL byte). \<open>spawn\<close> is called in the executor of
  the promise, so its exception rejects the promise and the \<open>await\<close> ends in the \<open>catch\<close>
  block. A worker that is sent \<open>SIGTERM\<close> ends unless it ignores the signal.
\<close>

definition POST_custom ::
  "(json \<Rightarrow> bool) \<Rightarrow> (spawn \<Rightarrow> bool) \<Rightarrow> (string \<Rightarrow> json option) \<Rightarrow> requester
     \<Rightarrow> json option \<Rightarrow> worker_run \<Rightarrow> custom_outcome" where
  "POST_custom url_parses spawn_throws JSON_parse r b w =
     (case require_admin r of
        Some resp \<Rightarrow> reject resp
      | None \<Rightarrow>
         (case b of
            None \<Rightarrow> reject (Response 500 (CaughtBody ''Internal server error''))
          | Some JNull \<Rightarrow> reject (Response 500 (CaughtBody ''Internal server error''))
          | Some bv \<Rightarrow>
             (let ty = body_field bv ''type''; url = body_field bv ''url'' in
              if \<not> truthy ty \<or> \<not> truthy url
                then reject (Response 400 (ErrorBody ''Missing required fields: type and url''))
              else if \<not> array_includes [''blog'', ''video'', ''playlist''] ty
                then reject (Response 400
                               (ErrorBody ''Invalid type. Must be: blog, video, or playlist''))
              else
                (case url of
                   None \<Rightarrow> reject (Response 400
                                     (ErrorBody ''Missing required fields: type and url''))
                 | Some v \<Rightarrow>
                     if \<not> url_parses v
                       then reject (Response 400 (ErrorBody ''Invalid URL format''))
                     else
                       (case crawler_for (str_of ty) v of
                          None \<Rightarrow> reject (Response 400 (ErrorBody ''Invalid type''))
                        | Some sp \<Rightarrow>
                            if spawn_throws sp
                              then reject (Response 500 (CaughtBody ''Internal server error''))
                            else
                            (case await_crawl JSON_parse w of
                               (res, k, t) \<Rightarrow>
                                 \<lparr>response =
                                    (case res of
                                       CrawlSuccess d \<Rightarrow>
                                         Response 200
                                           (CrawledBody (''Successfully crawled '' @ str_of ty) d)
                                     | CrawlError e \<Rightarrow>
                                         Response 500
                                           (FailureBody (if e = [] then ''Crawl failed'' else e))),
                                  spawned = [sp], sigterm_sent = k,
                                  worker_survives = (k \<and> ignores_sigterm w),
                                  waited = t\<rparr>))))))"

section \<open>The content table\<close>

text \<open>
  A row of \<open>public.aws_content\<close> as declared in the schema, after the column defaults
  have been applied, so that \<open>id\<close> is always there. Only the columns that carry a
  constraint or identify the content are named; the extension part of the record stands
  for the remaining ones, which the table declaration leaves free.
  \<^verbatim>\<open>id UUID DEFAULT uuid_generate_v4() PRIMARY KEY\<close>,
  \<^verbatim>\<open>title TEXT NOT NULL\<close>, \<^verbatim>\<open>url TEXT NOT NULL UNIQUE\<close>,
  \<^verbatim>\<open>canonical_url TEXT\<close>, \<^verbatim>\<open>content TEXT\<close>.
\<close>

record aws_content_row =
  row_id :: string
  title :: "string option"
  url :: "string option"
  canonical_url :: "string option"
  content :: "string option"

datatype db_error = NotNullViolation | UniqueViolation

text \<open>The table constraints of the declaration: primary key, not-null columns, unique URL.\<close>

definition aws_content_ok :: "('a aws_content_row_scheme) list \<Rightarrow> bool" where
  "aws_content_ok t \<longleftrightarrow>
     distinct (map row_id t) \<and>
     (\<forall>r \<in> set t. title r \<noteq> None \<and> url r \<noteq> None) \<and>
     distinct (map url t)"

text \<open>
  \<open>INSERT INTO aws_content\<close> of one row under these constraints: a statement that would
  break one of them fails and leaves the table as it was.
\<close>

definition insert_row ::
  "'a aws_content_row_scheme \<Rightarrow> ('a aws_content_row_scheme) list
     \<Rightarrow> db_error + ('a aws_content_row_scheme) list" where
  "insert_row r t =
     (if title r = None \<or> url r = None then Inl NotNullViolation
      else if row_id r \<in> row_id ` set t \<or> url r \<in> url ` set t then Inl UniqueViolation
      else Inr (t @ [r]))"

text \<open>
  Modelled from the spec: \<open>isNew\<close> of the Deduplicator of the Python crawling tree, which
  is not among the sources. It checks the candidate's URL, the deduplication key, against
  the store.
\<close>

definition isNew :: "('a aws_content_row_scheme) list \<Rightarrow> 'a aws_content_row_scheme \<Rightarrow> bool" where
  "isNew t c = (url c \<notin> url ` set t)"

text \<open>
  Modelled from the spec: \<open>upsert\<close> of the Deduplicator, which is not among the sources.
  Repeated calls with the same URL update the existing record rather than create a
  duplicate.
\<close>

definition upsert ::
  "'a aws_content_row_scheme \<Rightarrow> ('a aws_content_row_scheme) list
     \<Rightarrow> db_error + ('a aws_content_row_scheme) list" where
  "upsert c t =
     (if isNew t c then insert_row c t
      else if title c = None then Inl NotNullViolation
      else Inr (map (\<lambda>r. if url r = url c then c\<lparr>row_id := row_id r\<rparr> else r) t))"

text \<open>
  The writes a crawler can issue: a plain insert, an upsert, and an insert guarded by a
  duplicate check that was evaluated on an earlier snapshot of the table (the check of a
  worker that races with another one).
\<close>

datatype 'a store_write =
    Insert "'a aws_content_row_scheme"
  | Upsert "'a aws_content_row_scheme"
  | InsertIfNew "('a aws_content_row_scheme) list" "'a aws_content_row_scheme"

fun apply_write ::
  "'a store_write \<Rightarrow> ('a aws_content_row_scheme) list \<Rightarrow> db_error + ('a aws_content_row_scheme) list" where
  "apply_write (Insert r) t = insert_row r t"
| "apply_write (Upsert r) t = upsert r t"
| "apply_write (InsertIfNew snapshot r) t = (if isNew snapshot r then insert_row r t else Inr t)"

text \<open>A failed write is counted and the crawl goes on with the next candidate.\<close>

fun apply_writes :: "'a store_write list \<Rightarrow> ('a aws_content_row_scheme) list \<Rightarrow> ('a aws_content_row_scheme) list" where
  "apply_writes [] t = t"
| "apply_writes (w # ws) t =
     (case apply_write w t of Inl e \<Rightarrow> apply_writes ws t | Inr t' \<Rightarrow> apply_writes ws t')"

section \<open>Invariant of the registry and observations\<close>

text \<open>The progress value that goes with each status.\<close>

definition job_ok :: "crawl_job \<Rightarrow> bool" where
  "job_ok job =
     (case status job of
        Running \<Rightarrow> progress job \<in> {0, 25, 50, 75, 90}
      | Completed \<Rightarrow> progress job = 100
      | Failed \<Rightarrow> progress job = 0)"

definition registry_inv :: "system \<Rightarrow> bool" where
  "registry_inv s \<longleftrightarrow>
     set (workers s) \<subseteq> set (issued s) \<and>
     dom (map_of (activeCrawls s)) \<subseteq> set (issued s) \<and>
     (\<forall>d \<in> set (timers s). snd d \<in> set (issued s) \<and> snd d \<notin> set (workers s)) \<and>
     set (workers s) \<subseteq> dom (map_of (activeCrawls s)) \<and>
     (\<forall>j job. map_of (activeCrawls s) j = Some job \<longrightarrow>
        job_ok job \<and> (status job = Running \<longleftrightarrow> j \<in> set (workers s)))"

text \<open>What a poll of job \<open>j\<close> finds in the registry after the events \<open>es\<close>.\<close>

definition job_after :: "event list \<Rightarrow> string \<Rightarrow> crawl_job option" where
  "job_after es j = (case run es init of None \<Rightarrow> None | Some s \<Rightarrow> map_of (activeCrawls s) j)"

definition observed :: "event list \<Rightarrow> string \<Rightarrow> (job_status \<times> nat) option" where
  "observed es j = map_option (\<lambda>job. (status job, progress job)) (job_after es j)"

text \<open>An administrator and request bodies, for the concrete runs below.\<close>

definition admin :: requester where
  "admin = \<lparr>authError = False, user = Some ''user-1'',
            profile = Some \<lparr>role = Some ''admin'', email = None\<rparr>\<rparr>"

definition visitor :: requester where
  "visitor = \<lparr>authError = False, user = Some ''user-2'',
              profile = Some \<lparr>role = Some ''member'', email = Some ''dev@example.org''\<rparr>\<rparr>"

definition start_body :: "string \<Rightarrow> json option" where
  "start_body opn = Some (JObj [(''operation'', JStr opn)])"

definition custom_body :: "string \<Rightarrow> string \<Rightarrow> json option" where
  "custom_body ty u = Some (JObj [(''type'', JStr ty), (''url'', JStr u)])"

text \<open>
  The registry right after \<open>job-1\<close> was started with \<open>daily-update\<close>, when its worker
  has reached the processing stage, and after it was purged.
\<close>

definition job1 :: crawl_job where
  "job1 = \<lparr>jobId = ''job-1'', operation = ''daily-update'', status = Running, progress = 0,
           message = ''Starting daily-update...'', stats = None, error = None\<rparr>"

definition started :: system where
  "started = \<lparr>activeCrawls = [(''job-1'', job1)], workers = [''job-1''], timers = [], now = 0,
              issued = [''job-1''], statusRouteLoaded = False\<rparr>"

definition processing :: system where
  "processing =
     \<lparr>activeCrawls =
        [(''job-1'', job1\<lparr>progress := 90, message := ''Processing content with AI...''\<rparr>)],
      workers = [''job-1''], timers = [], now = 0, issued = [''job-1''],
      statusRouteLoaded = False\<rparr>"

definition purged :: system where
  "purged = \<lparr>activeCrawls = [], workers = [], timers = [], now = 600000,
             issued = [''job-1''], statusRouteLoaded = False\<rparr>"

text \<open>
  The registry after the worker of \<open>job-1\<close> closed with exit code 0, and with exit code 1.
\<close>

definition finished :: system where
  "finished =
     \<lparr>activeCrawls =
        [(''job-1'', job1\<lparr>status := Completed, progress := 100,
                           message := ''Crawl completed successfully!'',
                           stats := Some \<lparr>total_processed = 0, successful = 0, failed = 0,
                                          duplicates = 0\<rparr>\<rparr>)],
      workers = [], timers = [(600000, ''job-1'')], now = 0, issued = [''job-1''],
      statusRouteLoaded = False\<rparr>"

definition crashed :: system where
  "crashed =
     \<lparr>activeCrawls =
        [(''job-1'', job1\<lparr>status := Failed, progress := 0, message := ''Crawl failed'',
                           error := Some ''Process exited with code 1''\<rparr>)],
      workers = [], timers = [(600000, ''job-1'')], now = 0, issued = [''job-1''],
      statusRouteLoaded = False\<rparr>"

text \<open>
  A requester without a session; a stand-in for \<open>new URL\<close> that accepts the strings
  starting with \<open>http://\<close> or \<open>https://\<close>; a stand-in for the argument check of \<open>spawn\<close>,
  which throws on a string with a NUL byte; a stand-in for \<open>JSON.parse\<close> that reads the
  empty object only. Then six crawlers: one that never answers and ends when it is
  signalled, one that never answers and ignores the signal, one that prints \<open>{}\<close> after
  three seconds, one that prints a line with braces that is not JSON, one that fails
  with a message on \<open>stderr\<close>, and one that prints a line without braces.
\<close>

definition anonymous :: requester where
  "anonymous = \<lparr>authError = False, user = None, profile = None\<rparr>"

fun has_scheme :: "json \<Rightarrow> bool" where
  "has_scheme (JStr s) = (starts_with s ''http://'' \<or> starts_with s ''https://'')"
| "has_scheme v = False"

definition parse_empty :: "string \<Rightarrow> json option" where
  "parse_empty s = (if s = ''{}'' then Some (JObj []) else None)"

fun nul_refused :: "spawn \<Rightarrow> bool" where
  "nul_refused (Spawn script flag (JStr s)) = (CHR 0x00 \<in> set s)"
| "nul_refused (Spawn script flag v) = False"



definition quick :: worker_run where
  "quick = \<lparr>exit_after = Some 3000, exit_code = Some 0, stdout = ''{}'', stderr = [],
            ignores_sigterm = False\<rparr>"




text \<open>Two candidates with the same URL.\<close>

definition post_a :: aws_content_row where
  "post_a = \<lparr>row_id = ''id-1'', title = Some ''Launch'', url = Some ''https://aws.amazon.com/blogs/a'',
             canonical_url = None, content = Some ''first''\<rparr>"

definition post_b :: aws_content_row where
  "post_b = \<lparr>row_id = ''id-2'', title = Some ''Launch (updated)'',
             url = Some ''https://aws.amazon.com/blogs/a'', canonical_url = None,
             content = Some ''second''\<rparr>"

section \<open>Facts about strings and the admin test\<close>

text \<open>
  \<open>starts_with\<close> and \<open>str_includes\<close> are the prefix and the substring test, so the admin
  test holds exactly for a profile whose role is \<open>admin\<close> or whose email contains
  \<open>admin\<close>.
\<close>

lemma starts_with_iff: "starts_with s t \<longleftrightarrow> (\<exists>post. s = t @ post)"
  by (induction s t rule: starts_with.induct) auto

lemma str_includes_iff: "str_includes s t \<longleftrightarrow> (\<exists>pre post. s = pre @ t @ post)"
proof (induction s)
  case Nil
  then show ?case by simp
next
  case (Cons x xs)
  show ?case
  proof
    assume "str_includes (x # xs) t"
    then consider "starts_with (x # xs) t" | "str_includes xs t" by auto
    then show "\<exists>pre post. x # xs = pre @ t @ post"
    proof cases
      case 1
      then obtain post where "x # xs = [] @ t @ post" by (auto simp: starts_with_iff)
      then show ?thesis by blast
    next
      case 2
      with Cons.IH obtain pre post where "xs = pre @ t @ post" by blast
      then have "x # xs = (x # pre) @ t @ post" by simp
      then show ?thesis by blast
    qed
  next
    assume "\<exists>pre post. x # xs = pre @ t @ post"
    then obtain pre post where eq: "x # xs = pre @ t @ post" by blast
    show "str_includes (x # xs) t"
    proof (cases pre)
      case Nil
      with eq have "starts_with (x # xs) t" by (auto simp: starts_with_iff)
      then show ?thesis by simp
    next
      case (Cons p ps)
      with eq have "xs = ps @ t @ post" by simp
      with Cons.IH have "str_includes xs t" by blast
      then show ?thesis by simp
    qed
  qed
qed

lemma isAdmin_iff:
  "isAdmin p \<longleftrightarrow>
     (\<exists>pr. p = Some pr \<and>
        (role pr = Some ''admin'' \<or> (\<exists>pre post. email pr = Some (pre @ ''admin'' @ post))))"
  by (auto simp: isAdmin_def str_includes_iff split: option.splits)

section \<open>The listeners, one event at a time\<close>

text \<open>
  Each listener touches the record of its own job only and never adds or removes a key.
\<close>

lemma on_stdout_other: "k \<noteq> j \<Longrightarrow> map_of (on_stdout j d st) k = map_of st k"
  by (simp add: on_stdout_def Let_def update_conv' split: option.splits)

lemma on_stdout_dom: "dom (map_of (on_stdout j d st)) = dom (map_of st)"
  by (auto simp: on_stdout_def Let_def update_conv' split: option.splits if_splits)

lemma on_stdout_same:
  assumes "map_of st j = Some job"
  shows "\<exists>job'. map_of (on_stdout j d st) j = Some job' \<and> status job' = status job \<and>
           (progress job' = progress job \<or> progress job' \<in> {25, 50, 75, 90})"
  using assms by (simp add: on_stdout_def Let_def update_conv')

lemma on_close_other: "k \<noteq> j \<Longrightarrow> map_of (on_close j c st) k = map_of st k"
  by (simp add: on_close_def update_conv' split: option.splits)

lemma on_close_dom: "dom (map_of (on_close j c st)) = dom (map_of st)"
  by (auto simp: on_close_def update_conv' split: option.splits if_splits)

lemma on_close_same:
  assumes "map_of st j = Some job"
  shows "\<exists>job'. map_of (on_close j c st) j = Some job' \<and> status job' \<noteq> Running \<and> job_ok job'
     \<and> (status job' = Completed \<longleftrightarrow> c = Some 0)"
  using assms by (simp add: on_close_def update_conv' job_ok_def)

lemma on_close_result:
  assumes "map_of st j = Some job"
  shows "\<exists>job'. map_of (on_close j c st) j = Some job' \<and>
           (if c = Some 0 then status job' = Completed \<and> progress job' = 100
            else status job' = Failed \<and> progress job' = 0)"
  using assms by (simp add: on_close_def update_conv')

text \<open>
  The start route either leaves the state alone or registers one running job; the status
  route leaves everything but its own cache flag alone.
\<close>

lemma POST_start_cases:
  "snd (POST_start r b u s) = s \<or>
   (\<exists>opn. snd (POST_start r b u s) =
      s\<lparr>activeCrawls :=
           AList.update u
             \<lparr>jobId = u, operation = opn, status = Running, progress = 0,
              message = ''Starting '' @ opn @ ''...'', stats = None, error = None\<rparr>
             (activeCrawls s),
         workers := u # workers s,
         issued := u # issued s\<rparr>)"
  by (auto simp: POST_start_def Let_def split: option.splits json.splits)

lemma POST_start_lookup:
  "u \<noteq> j \<Longrightarrow> map_of (activeCrawls (snd (POST_start r b u s))) j = map_of (activeCrawls s) j"
  using POST_start_cases [of r b u s] by (auto simp: update_conv')

lemma POST_start_workers:
  "u \<noteq> j \<Longrightarrow> j \<in> set (workers (snd (POST_start r b u s))) \<longleftrightarrow> j \<in> set (workers s)"
  using POST_start_cases [of r b u s] by auto

lemma POST_start_issued:
  "j \<in> set (issued s) \<Longrightarrow> j \<in> set (issued (snd (POST_start r b u s)))"
  using POST_start_cases [of r b u s] by auto

lemma POST_start_timers: "timers (snd (POST_start r b u s)) = timers s"
  using POST_start_cases [of r b u s] by auto

lemma POST_start_now: "now (snd (POST_start r b u s)) = now s"
  using POST_start_cases [of r b u s] by auto

lemma GET_status_frame:
  "activeCrawls (snd (GET_status r q s)) = activeCrawls s"
  "workers (snd (GET_status r q s)) = workers s"
  "timers (snd (GET_status r q s)) = timers s"
  "now (snd (GET_status r q s)) = now s"
  "issued (snd (GET_status r q s)) = issued s"
  by (simp_all add: GET_status_def split: option.splits)

lemma GET_status_admin:
  assumes "require_admin r = None" and "j \<noteq> []"
  shows "fst (GET_status r (Some j) s) =
           (case map_of (activeCrawls s) j of
              None \<Rightarrow> Response 404 (ErrorBody ''Job not found or expired'')
            | Some job \<Rightarrow> Response 200 (StatusBody job))"
  using assms by (simp add: GET_status_def split: option.splits)

section \<open>Runs of the server\<close>

lemma run_append:
  "run (es @ [e]) s =
     (case run es s of None \<Rightarrow> None | Some t \<Rightarrow> if enabled e t then Some (step e t) else None)"
  by (induction es arbitrary: s) auto

lemma run_concat:
  "run (xs @ ys) s = (case run xs s of None \<Rightarrow> None | Some t \<Rightarrow> run ys t)"
  by (induction xs arbitrary: s) auto

lemma inv_init: "registry_inv init"
  by (simp add: registry_inv_def init_def)

lemma inv_step:
  assumes "registry_inv s" and "enabled e s"
  shows "registry_inv (step e s)"
proof (cases e)
  case (PostStart r b u)
  with assms have fresh: "u \<notin> set (issued s)" by simp
  from POST_start_cases [of r b u s] show ?thesis
  proof
    assume "snd (POST_start r b u s) = s"
    with PostStart assms show ?thesis by simp
  next
    assume "\<exists>opn. snd (POST_start r b u s) =
      s\<lparr>activeCrawls :=
           AList.update u
             \<lparr>jobId = u, operation = opn, status = Running, progress = 0,
              message = ''Starting '' @ opn @ ''...'', stats = None, error = None\<rparr>
             (activeCrawls s),
         workers := u # workers s,
         issued := u # issued s\<rparr>"
    then obtain opn where eq: "step e s =
      s\<lparr>activeCrawls :=
           AList.update u
             \<lparr>jobId = u, operation = opn, status = Running, progress = 0,
              message = ''Starting '' @ opn @ ''...'', stats = None, error = None\<rparr>
             (activeCrawls s),
         workers := u # workers s,
         issued := u # issued s\<rparr>"
      using PostStart by auto
    show ?thesis
      unfolding eq using assms(1) fresh
      by (auto simp: registry_inv_def update_conv' job_ok_def)
  qed
next
  case (GetStatus r q)
  with assms(1) show ?thesis
    by (simp add: registry_inv_def GET_status_frame)
next
  case (StdoutData j d)
  with assms have live: "j \<in> set (workers s)" by simp
  have "\<And>k job'. map_of (on_stdout j d (activeCrawls s)) k = Some job' \<Longrightarrow>
          job_ok job' \<and> (status job' = Running \<longleftrightarrow> k \<in> set (workers s))"
  proof -
    fix k job' assume h: "map_of (on_stdout j d (activeCrawls s)) k = Some job'"
    show "job_ok job' \<and> (status job' = Running \<longleftrightarrow> k \<in> set (workers s))"
    proof (cases "k = j")
      case False
      with h assms(1) show ?thesis by (simp add: on_stdout_other registry_inv_def)
    next
      case True
      from live assms(1) obtain job where j: "map_of (activeCrawls s) j = Some job"
        by (auto simp: registry_inv_def)
      with assms(1) live have r: "status job = Running" "job_ok job"
        by (auto simp: registry_inv_def)
      from on_stdout_same [OF j, of d] h True r show ?thesis
        using live by (auto simp: job_ok_def)
    qed
  qed
  with assms(1) StdoutData show ?thesis
    by (simp add: registry_inv_def on_stdout_dom)
next
  case (StderrData j d)
  with assms(1) show ?thesis by (simp add: registry_inv_def on_stderr_def)
next
  case (Close j c)
  with assms have live: "j \<in> set (workers s)" by simp
  from live assms(1) obtain job where j: "map_of (activeCrawls s) j = Some job"
    by (auto simp: registry_inv_def)
  have "\<And>k job'. map_of (on_close j c (activeCrawls s)) k = Some job' \<Longrightarrow>
          job_ok job' \<and> (status job' = Running \<longleftrightarrow> k \<in> set (workers s) \<and> k \<noteq> j)"
  proof -
    fix k job' assume h: "map_of (on_close j c (activeCrawls s)) k = Some job'"
    show "job_ok job' \<and> (status job' = Running \<longleftrightarrow> k \<in> set (workers s) \<and> k \<noteq> j)"
    proof (cases "k = j")
      case False
      with h assms(1) show ?thesis by (simp add: on_close_other registry_inv_def)
    next
      case True
      from on_close_same [OF j, of c] h True show ?thesis by auto
    qed
  qed
  with assms(1) Close live show ?thesis
    by (auto simp: registry_inv_def on_close_dom)
next
  case (TimerFires j)
  with assms obtain d where "d \<in> set (timers s)" "snd d = j" by auto
  with assms(1) have dead: "j \<notin> set (workers s)" by (auto simp: registry_inv_def)
  with assms(1) TimerFires show ?thesis
    by (auto simp: registry_inv_def delete_conv' split: if_splits)
next
  case (Tick n)
  with assms(1) show ?thesis by (simp add: registry_inv_def)
qed

lemma inv_run: "registry_inv s \<Longrightarrow> run es s = Some t \<Longrightarrow> registry_inv t"
  by (induction es arbitrary: s) (auto split: if_splits intro: inv_step)

lemma reachable_inv: "run es init = Some s \<Longrightarrow> registry_inv s"
  using inv_run [OF inv_init] .

text \<open>
  An event that does not address job \<open>j\<close> leaves its record alone; the clock never goes
  back.
\<close>

lemma step_lookup:
  assumes "enabled e s" and "j \<in> set (issued s)"
    and "\<forall>d. e \<noteq> StdoutData j d" and "\<forall>c. e \<noteq> Close j c" and "e \<noteq> TimerFires j"
  shows "map_of (activeCrawls (step e s)) j = map_of (activeCrawls s) j"
proof (cases e)
  case (PostStart r b u)
  with assms have "u \<noteq> j" by auto
  with PostStart show ?thesis by (simp add: POST_start_lookup)
next
  case (GetStatus r q)
  then show ?thesis by (simp add: GET_status_frame)
next
  case (StdoutData k d)
  with assms have "j \<noteq> k" by auto
  with StdoutData show ?thesis by (simp add: on_stdout_other)
next
  case (StderrData k d)
  then show ?thesis by (simp add: on_stderr_def)
next
  case (Close k c)
  with assms have "j \<noteq> k" by auto
  with Close show ?thesis by (simp add: on_close_other)
next
  case (TimerFires k)
  with assms have "j \<noteq> k" by auto
  with TimerFires show ?thesis by (simp add: delete_conv')
next
  case (Tick n)
  then show ?thesis by simp
qed

lemma step_now_mono: "now s \<le> now (step e s)"
  by (cases e) (simp_all add: POST_start_now GET_status_frame)

lemma run_now_mono: "run es s = Some t \<Longrightarrow> now s \<le> now t"
proof (induction es arbitrary: s)
  case Nil
  then show ?case by simp
next
  case (Cons e es)
  then have "now (step e s) \<le> now t" by (simp split: if_splits)
  with step_now_mono [of s e] show ?case by simp
qed

text \<open>
  Once the worker of a job has closed, only the timer of that job changes its record,
  and that timer fires when the clock has reached its due time and not before.
\<close>

lemma step_finished:
  assumes "enabled e s" and "j \<in> set (issued s)" and "j \<notin> set (workers s)"
    and "e \<noteq> TimerFires j"
  shows "map_of (activeCrawls (step e s)) j = map_of (activeCrawls s) j"
    and "j \<in> set (issued (step e s))"
    and "j \<notin> set (workers (step e s))"
    and "\<forall>d. (d \<in> set (timers (step e s)) \<and> snd d = j) = (d \<in> set (timers s) \<and> snd d = j)"
proof -
  have a: "\<forall>d. e \<noteq> StdoutData j d" and b: "\<forall>c. e \<noteq> Close j c"
    using assms(1,3) by auto
  show "map_of (activeCrawls (step e s)) j = map_of (activeCrawls s) j"
    using assms a b by (simp add: step_lookup)
  show "j \<in> set (issued (step e s))"
    using assms(2) by (cases e) (simp_all add: POST_start_issued GET_status_frame)
  show "j \<notin> set (workers (step e s))"
  proof (cases e)
    case (PostStart r b u)
    with assms have "u \<noteq> j" by auto
    with PostStart assms(3) show ?thesis by (simp add: POST_start_workers)
  qed (use assms(3) in \<open>simp_all add: GET_status_frame\<close>)
  show "\<forall>d. (d \<in> set (timers (step e s)) \<and> snd d = j) = (d \<in> set (timers s) \<and> snd d = j)"
  proof (cases e)
    case (Close k c)
    with assms have "k \<noteq> j" by auto
    with Close show ?thesis by auto
  next
    case (TimerFires k)
    with assms have "k \<noteq> j" by auto
    with TimerFires show ?thesis by auto
  qed (simp_all add: POST_start_timers GET_status_frame)
qed

lemma after_close:
  assumes "j \<in> set (issued t)" and "j \<notin> set (workers t)"
    and "\<forall>d. (d \<in> set (timers t) \<and> snd d = j) = (d = (D, j))"
    and "run es t = Some s'"
  shows "(now s' < D \<longrightarrow> TimerFires j \<notin> set es) \<and>
         (TimerFires j \<notin> set es \<longrightarrow>
            map_of (activeCrawls s') j = map_of (activeCrawls t) j \<and>
            (enabled (TimerFires j) s' \<longleftrightarrow> D \<le> now s'))"
  using assms
proof (induction es arbitrary: t)
  case Nil
  then have "s' = t" by simp
  moreover have "(\<exists>d \<in> set (timers t). snd d = j \<and> fst d \<le> now t) \<longleftrightarrow> D \<le> now t"
  proof
    assume "\<exists>d \<in> set (timers t). snd d = j \<and> fst d \<le> now t"
    then obtain d where d: "d \<in> set (timers t) \<and> snd d = j" and le: "fst d \<le> now t"
      by blast
    from d Nil.prems(3) have "d = (D, j)" by simp
    with le show "D \<le> now t" by simp
  next
    assume le: "D \<le> now t"
    from Nil.prems(3) have "(D, j) \<in> set (timers t) \<and> snd (D, j) = j" by blast
    with le show "\<exists>d \<in> set (timers t). snd d = j \<and> fst d \<le> now t" by force
  qed
  ultimately show ?case by simp
next
  case (Cons e es)
  then have en: "enabled e t" and rest: "run es (step e t) = Some s'"
    by (simp_all split: if_splits)
  show ?case
  proof (cases "e = TimerFires j")
    case True
    with en obtain d where d: "d \<in> set (timers t) \<and> snd d = j" and le: "fst d \<le> now t"
      by auto
    from d Cons.prems(3) have "d = (D, j)" by simp
    with le have "D \<le> now t" by simp
    moreover have "now t \<le> now s'"
      using Cons.prems(4) by (rule run_now_mono)
    ultimately show ?thesis using True by simp
  next
    case False
    note fin = step_finished [OF en Cons.prems(1) Cons.prems(2) False]
    from fin(4) Cons.prems(3)
    have tm: "\<forall>d. (d \<in> set (timers (step e t)) \<and> snd d = j) = (d = (D, j))" by simp
    from Cons.IH [OF fin(2) fin(3) tm rest] fin(1) False show ?thesis by simp
  qed
qed

text \<open>
  The keys of the registry are the ids that were issued and whose timer has not fired.
\<close>

lemma dom_issued_purged:
  "run es init = Some s \<Longrightarrow>
     dom (map_of (activeCrawls s)) = set (issued s) - {j. TimerFires j \<in> set es} \<and>
     {j. TimerFires j \<in> set es} \<subseteq> set (issued s)"
proof (induction es arbitrary: s rule: rev_induct)
  case Nil
  then show ?case by (auto simp: init_def)
next
  case (snoc e es)
  then obtain t where t: "run es init = Some t" and en: "enabled e t" and s: "s = step e t"
    by (auto simp: run_append split: option.splits if_splits)
  from snoc.IH [OF t]
  have ih: "dom (map_of (activeCrawls t)) = set (issued t) - {j. TimerFires j \<in> set es}"
    "{j. TimerFires j \<in> set es} \<subseteq> set (issued t)" by simp_all
  have inv: "registry_inv t" using inv_run [OF inv_init t] .
  show ?case
  proof (cases e)
    case (PostStart r b u)
    with en have fresh: "u \<notin> set (issued t)" by simp
    from POST_start_cases [of r b u t] show ?thesis
    proof (elim disjE exE)
      assume "snd (POST_start r b u t) = t"
      with PostStart s ih show ?thesis by simp
    next
      fix opn
      assume "snd (POST_start r b u t) =
        t\<lparr>activeCrawls :=
             AList.update u
               \<lparr>jobId = u, operation = opn, status = Running, progress = 0,
                message = ''Starting '' @ opn @ ''...'', stats = None, error = None\<rparr>
               (activeCrawls t),
           workers := u # workers t,
           issued := u # issued t\<rparr>"
      with PostStart s have "dom (map_of (activeCrawls s)) = insert u (dom (map_of (activeCrawls t)))"
        and "set (issued s) = insert u (set (issued t))"
        by (simp_all add: update_conv')
      with ih fresh PostStart show ?thesis by auto
    qed
  next
    case (GetStatus r q)
    with s ih show ?thesis by (simp add: GET_status_frame)
  next
    case (StdoutData k d)
    with s ih show ?thesis by (simp add: on_stdout_dom)
  next
    case (StderrData k d)
    with s ih show ?thesis by (simp add: on_stderr_def)
  next
    case (Close k c)
    with s ih show ?thesis by (simp add: on_close_dom)
  next
    case (TimerFires k)
    with en inv have k: "k \<in> set (issued t)" by (auto simp: registry_inv_def)
    from TimerFires s have "dom (map_of (activeCrawls s)) = dom (map_of (activeCrawls t)) - {k}"
      and "issued s = issued t"
      by (simp_all add: delete_conv')
    moreover from TimerFires
    have "{j. TimerFires j \<in> set (es @ [e])} = insert k {j. TimerFires j \<in> set es}"
      by auto
    ultimately show ?thesis using ih k by (simp only:) blast
  next
    case (Tick n)
    with s ih show ?thesis by simp
  qed
qed

lemma not_found_iff:
  assumes "run es init = Some s" and "require_admin r = None" and "j \<noteq> []"
  shows "fst (GET_status r (Some j) s) = Response 404 (ErrorBody ''Job not found or expired'')
           \<longleftrightarrow> j \<notin> set (issued s) \<or> TimerFires j \<in> set es"
proof -
  have "fst (GET_status r (Some j) s) = Response 404 (ErrorBody ''Job not found or expired'')
          \<longleftrightarrow> j \<notin> dom (map_of (activeCrawls s))"
    by (auto simp: GET_status_admin [OF assms(2,3)] split: option.splits)
  also have "\<dots> \<longleftrightarrow> j \<notin> set (issued s) \<or> TimerFires j \<in> set es"
    using dom_issued_purged [OF assms(1)] by blast
  finally show ?thesis .
qed

section \<open>Concrete runs\<close>

lemmas eval_defs =
  job_after_def observed_def admin_def start_body_def init_def POST_start_def require_admin_def
  isAdmin_def operations_def on_stdout_def on_close_def on_stderr_def trim_def is_space_def
  retention_ms_def Let_def GET_status_def

lemma require_admin_admin: "require_admin admin = None"
  by (simp add: require_admin_def admin_def isAdmin_def)

lemma run_started: "run [PostStart admin (start_body ''daily-update'') ''job-1''] init = Some started"
  by (simp add: eval_defs started_def job1_def)

lemma run_processing:
  "run [PostStart admin (start_body ''daily-update'') ''job-1'',
        StdoutData ''job-1'' ''Processing content with AI''] init = Some processing"
  by (simp add: eval_defs processing_def job1_def)


section \<open>Completion of a job (C1)\<close>

text \<open>
  C1 says that on normal completion the job is \<open>completed\<close> with progress 100 and that
  its \<open>stats\<close> carry the counts of the run. The \<open>close\<close> listener does set the status
  and the progress, but it writes four zeros into \<open>stats\<close> whatever the worker reported:
  here a \<open>process-content\<close> job whose worker printed that it processed five items and
  then exited with code 0 ends with \<open>total_processed = 0\<close>.
\<close>

theorem completed_stats_constant:
  "job_after
     [PostStart admin (start_body ''process-content'') ''job-1'',
      StdoutData ''job-1'' ''Processing content: 5 processed, 3 successful, 1 failed, 1 duplicates'',
      Close ''job-1'' (Some 0)] ''job-1'' =
   Some \<lparr>jobId = ''job-1'', operation = ''process-content'', status = Completed, progress = 100,
         message = ''Crawl completed successfully!'',
         stats = Some \<lparr>total_processed = 0, successful = 0, failed = 0, duplicates = 0\<rparr>,
         error = None\<rparr>"
  by (simp add: eval_defs)

section \<open>Status and progress over time (C2)\<close>

text \<open>
  C2 as stated, that no update lowers the progress of a job: it fails. A chunk that
  matches the marker of an earlier stage takes a running job from 90 back to 25, and a
  worker that exits with code 1 takes it from 90 to 0.
\<close>

theorem progress_can_decrease:
  "observed
     [PostStart admin (start_body ''daily-update'') ''job-1'',
      StdoutData ''job-1'' ''Processing content with AI''] ''job-1'' = Some (Running, 90) \<and>
   observed
     [PostStart admin (start_body ''daily-update'') ''job-1'',
      StdoutData ''job-1'' ''Processing content with AI'',
      StdoutData ''job-1'' ''Crawling AWS Blogs''] ''job-1'' = Some (Running, 25) \<and>
   observed
     [PostStart admin (start_body ''daily-update'') ''job-1'',
      StdoutData ''job-1'' ''Processing content with AI'',
      Close ''job-1'' (Some 1)] ''job-1'' = Some (Failed, 0)"
  by (simp add: eval_defs)

text \<open>
  C2, amended. For every job in a reachable registry and every event: a record whose
  status is \<open>completed\<close> or \<open>failed\<close> is not changed any more (so the status never goes
  back to \<open>running\<close> nor from one terminal status to the other), a job that is running
  after the event was running before it, and the progress goes down in two cases only:
  a chunk of the job's own worker output that matches the marker of a lower milestone
  (25, 50 or 75) while the job stays running, or the end of the worker with an exit code
  other than 0, which sets the status to \<open>failed\<close> and the progress to 0.
\<close>

theorem status_monotonic:
  assumes "run es init = Some s" and "enabled e s"
    and "map_of (activeCrawls s) j = Some job"
    and "map_of (activeCrawls (step e s)) j = Some job'"
  shows "(status job \<noteq> Running \<longrightarrow> job' = job) \<and>
         (status job' = Running \<longrightarrow> status job = Running) \<and>
         (progress job' < progress job \<longrightarrow>
            (\<exists>d. e = StdoutData j d \<and> status job' = Running \<and> progress job' \<in> {25, 50, 75}) \<or>
            (\<exists>c. e = Close j c \<and> c \<noteq> Some 0 \<and> status job' = Failed \<and> progress job' = 0))"
proof -
  have inv: "registry_inv s" using assms(1) by (rule reachable_inv)
  from inv assms(3) have iss: "j \<in> set (issued s)" by (auto simp: registry_inv_def)
  from inv assms(3) have ok: "job_ok job" and live: "status job = Running \<longleftrightarrow> j \<in> set (workers s)"
    by (auto simp: registry_inv_def)
  have frozen: "job' = job" if "status job \<noteq> Running"
  proof -
    from that live have dead: "j \<notin> set (workers s)" by simp
    have "e \<noteq> TimerFires j"
    proof
      assume "e = TimerFires j"
      then have "map_of (activeCrawls (step e s)) j = None" by (simp add: delete_conv')
      with assms(4) show False by simp
    qed
    from step_finished(1) [OF assms(2) iss dead this] assms(3,4) show ?thesis by simp
  qed
  have drop: "(\<exists>d. e = StdoutData j d \<and> status job' = Running \<and> progress job' \<in> {25, 50, 75}) \<or>
            (\<exists>c. e = Close j c \<and> c \<noteq> Some 0 \<and> status job' = Failed \<and> progress job' = 0)"
    if less: "progress job' < progress job"
  proof -
    from less frozen have run: "status job = Running" by auto
    with ok have le: "progress job \<le> 90" by (auto simp: job_ok_def)
    have ne: "map_of (activeCrawls (step e s)) j \<noteq> map_of (activeCrawls s) j"
      using less assms(3,4) by auto
    have "e \<noteq> TimerFires j"
    proof
      assume "e = TimerFires j"
      then have "map_of (activeCrawls (step e s)) j = None" by (simp add: delete_conv')
      with assms(4) show False by simp
    qed
    with ne step_lookup [OF assms(2) iss]
    consider d where "e = StdoutData j d" | c where "e = Close j c" by blast
    then show ?thesis
    proof cases
      case 1
      from on_stdout_same [OF assms(3), of d] assms(4) 1
      have "status job' = status job"
        and "progress job' = progress job \<or> progress job' \<in> {25, 50, 75, 90}" by auto
      with less le run 1 show ?thesis by auto
    next
      case 2
      from on_close_result [OF assms(3), of c] assms(4) 2
      have "if c = Some 0 then status job' = Completed \<and> progress job' = 100
            else status job' = Failed \<and> progress job' = 0" by auto
      with less le 2 show ?thesis by (auto split: if_splits)
    qed
  qed
  from frozen have "status job' = Running \<longrightarrow> status job = Running" by auto
  with frozen drop show ?thesis by blast
qed

text \<open>
  The theorem at work on a job in its processing stage: the marker of the blog stage
  lowers its progress from 90 to 25, a failing worker resets it to 0.
\<close>

theorem status_monotonic_witness:
  "run [PostStart admin (start_body ''daily-update'') ''job-1'',
        StdoutData ''job-1'' ''Processing content with AI''] init = Some processing \<and>
   map_of (activeCrawls processing) ''job-1'' =
     Some (job1\<lparr>progress := 90, message := ''Processing content with AI...''\<rparr>) \<and>
   enabled (StdoutData ''job-1'' ''Crawling AWS Blogs'') processing \<and>
   map_of (activeCrawls (step (StdoutData ''job-1'' ''Crawling AWS Blogs'') processing)) ''job-1'' =
     Some (job1\<lparr>progress := 25, message := ''Crawling AWS Blogs...''\<rparr>) \<and>
   progress (job1\<lparr>progress := 25, message := ''Crawling AWS Blogs...''\<rparr>)
     < progress (job1\<lparr>progress := 90, message := ''Processing content with AI...''\<rparr>) \<and>
   status (job1\<lparr>progress := 25, message := ''Crawling AWS Blogs...''\<rparr>) = Running \<and>
   enabled (Close ''job-1'' (Some 1)) processing \<and>
   map_of (activeCrawls (step (Close ''job-1'' (Some 1)) processing)) ''job-1'' =
     Some (job1\<lparr>status := Failed, progress := 0, message := ''Crawl failed'',
                error := Some ''Process exited with code 1''\<rparr>) \<and>
   status (job1\<lparr>status := Failed, progress := 0, message := ''Crawl failed'',
                 error := Some ''Process exited with code 1''\<rparr>) = Failed"
proof -
  have en: "enabled (StdoutData ''job-1'' ''Crawling AWS Blogs'') processing"
    by (simp add: processing_def)
  have en2: "enabled (Close ''job-1'' (Some 1)) processing"
    by (simp add: processing_def)
  have m: "map_of (activeCrawls processing) ''job-1'' =
     Some (job1\<lparr>progress := 90, message := ''Processing content with AI...''\<rparr>)"
    by (simp add: processing_def)
  have m': "map_of (activeCrawls (step (StdoutData ''job-1'' ''Crawling AWS Blogs'') processing))
      ''job-1'' = Some (job1\<lparr>progress := 25, message := ''Crawling AWS Blogs...''\<rparr>)"
    by (simp add: processing_def eval_defs)
  have sn: "show_nat 1 = ''1''" "show_nat (Suc 0) = ''1''" by code_simp+
  have m2: "map_of (activeCrawls (step (Close ''job-1'' (Some 1)) processing)) ''job-1'' =
     Some (job1\<lparr>status := Failed, progress := 0, message := ''Crawl failed'',
                error := Some ''Process exited with code 1''\<rparr>)"
    by (simp add: processing_def eval_defs sn)
  have less: "progress (job1\<lparr>progress := 25, message := ''Crawling AWS Blogs...''\<rparr>)
     < progress (job1\<lparr>progress := 90, message := ''Processing content with AI...''\<rparr>)"
    by simp
  have less2: "progress (job1\<lparr>status := Failed, progress := 0, message := ''Crawl failed'',
                error := Some ''Process exited with code 1''\<rparr>)
     < progress (job1\<lparr>progress := 90, message := ''Processing content with AI...''\<rparr>)"
    by simp
  from status_monotonic [OF run_processing en m m'] less
  have a: "status (job1\<lparr>progress := 25, message := ''Crawling AWS Blogs...''\<rparr>) = Running"
    by simp
  from status_monotonic [OF run_processing en2 m m2] less2
  have b: "status (job1\<lparr>status := Failed, progress := 0, message := ''Crawl failed'',
                 error := Some ''Process exited with code 1''\<rparr>) = Failed"
    by simp
  from run_processing m en m' less a en2 m2 b show ?thesis by simp
qed

section \<open>Not found, retention and purge (C3)\<close>

text \<open>
  C3 as stated, that a status query answers not-found exactly when the id was never
  issued or was purged: it fails for the empty id, which was never issued and is
  answered by the bad-request error of a missing parameter.
\<close>

theorem empty_job_id_bad_request:
  "run [] init = Some init \<and> [] \<notin> set (issued init) \<and>
   fst (GET_status admin (Some []) init) = Response 400 (ErrorBody ''Missing jobId parameter'')"
  by (simp add: GET_status_def require_admin_admin init_def)

text \<open>
  C3, amended to non-empty ids. For an administrator, a non-empty id \<open>j\<close> and a reachable
  registry: the status query answers 404 exactly when \<open>j\<close> was never issued or its
  timer has fired, and it answers with the stored record otherwise. When the worker of
  \<open>j\<close> closes, the timer of \<open>j\<close> cannot fire before 600000 milliseconds (ten minutes)
  have passed; until it fires the query returns the record as the \<open>close\<close> listener left
  it, with a terminal status; the timer can fire as soon as the ten minutes are over; and
  once it has fired the query answers 404.
\<close>

theorem status_not_found:
  assumes "run es init = Some s" and "require_admin r = None" and "j \<noteq> []"
  shows "(fst (GET_status r (Some j) s) = Response 404 (ErrorBody ''Job not found or expired'')
            \<longleftrightarrow> j \<notin> set (issued s) \<or> TimerFires j \<in> set es) \<and>
         (\<forall>job. map_of (activeCrawls s) j = Some job \<longrightarrow>
            fst (GET_status r (Some j) s) = Response 200 (StatusBody job)) \<and>
         (\<forall>c es' s'. enabled (Close j c) s \<and> run es' (step (Close j c) s) = Some s' \<longrightarrow>
            (now s' < now s + 600000 \<longrightarrow> TimerFires j \<notin> set es') \<and>
            (TimerFires j \<notin> set es' \<longrightarrow>
               (\<exists>job. map_of (on_close j c (activeCrawls s)) j = Some job \<and>
                      status job \<noteq> Running \<and>
                      fst (GET_status r (Some j) s') = Response 200 (StatusBody job)) \<and>
               (enabled (TimerFires j) s' \<longleftrightarrow> now s + 600000 \<le> now s')) \<and>
            (TimerFires j \<in> set es' \<longrightarrow>
               fst (GET_status r (Some j) s') =
                 Response 404 (ErrorBody ''Job not found or expired'')))"
proof (intro conjI allI impI)
  show "fst (GET_status r (Some j) s) = Response 404 (ErrorBody ''Job not found or expired'')
          \<longleftrightarrow> j \<notin> set (issued s) \<or> TimerFires j \<in> set es"
    using assms by (rule not_found_iff)
next
  fix job assume "map_of (activeCrawls s) j = Some job"
  then show "fst (GET_status r (Some j) s) = Response 200 (StatusBody job)"
    by (simp add: GET_status_admin [OF assms(2,3)])
next
  fix c es' s'
  assume h: "enabled (Close j c) s \<and> run es' (step (Close j c) s) = Some s'"
  then have live: "j \<in> set (workers s)" and rest: "run es' (step (Close j c) s) = Some s'"
    by simp_all
  have inv: "registry_inv s" using assms(1) by (rule reachable_inv)
  define t where "t = step (Close j c) s"
  define D where "D = now s + retention_ms"
  from inv live have iss: "j \<in> set (issued t)" by (auto simp: registry_inv_def t_def)
  have dead: "j \<notin> set (workers t)" by (simp add: t_def)
  from inv live have "\<forall>d \<in> set (timers s). snd d \<noteq> j" by (auto simp: registry_inv_def)
  then have tm: "\<forall>d. (d \<in> set (timers t) \<and> snd d = j) = (d = (D, j))"
    by (auto simp: t_def D_def)
  from rest have rest': "run es' t = Some s'" by (simp add: t_def)
  note ac = after_close [OF iss dead tm rest']
  from inv live obtain job0 where "map_of (activeCrawls s) j = Some job0"
    by (auto simp: registry_inv_def)
  from on_close_same [OF this, of c]
  obtain job where job: "map_of (on_close j c (activeCrawls s)) j = Some job"
    and fin: "status job \<noteq> Running" by blast
  have D: "D = now s + 600000" by (simp add: D_def retention_ms_def)
  {
    assume "now s' < now s + 600000"
    with ac D show "TimerFires j \<notin> set es'" by simp
  }
  {
    assume nf: "TimerFires j \<notin> set es'"
    with ac have "map_of (activeCrawls s') j = map_of (activeCrawls t) j" by simp
    with job have "map_of (activeCrawls s') j = Some job" by (simp add: t_def)
    then have "fst (GET_status r (Some j) s') = Response 200 (StatusBody job)"
      by (simp add: GET_status_admin [OF assms(2,3)])
    with job fin
    show "\<exists>job. map_of (on_close j c (activeCrawls s)) j = Some job \<and> status job \<noteq> Running \<and>
            fst (GET_status r (Some j) s') = Response 200 (StatusBody job)" by blast
    from nf ac D show "enabled (TimerFires j) s' \<longleftrightarrow> now s + 600000 \<le> now s'" by simp
  }
  {
    assume fired: "TimerFires j \<in> set es'"
    from assms(1) live rest have "run (es @ Close j c # es') init = Some s'"
      by (simp add: run_concat)
    from not_found_iff [OF this assms(2,3)] fired
    show "fst (GET_status r (Some j) s') = Response 404 (ErrorBody ''Job not found or expired'')"
      by simp
  }
qed

text \<open>
  The theorem at work: \<open>job-1\<close> is found while it runs, and after its worker closed, ten
  minutes passed and the timer fired, it is not found.
\<close>

theorem status_not_found_witness:
  "run [PostStart admin (start_body ''daily-update'') ''job-1''] init = Some started \<and>
   require_admin admin = None \<and> ''job-1'' \<noteq> [] \<and>
   fst (GET_status admin (Some ''job-1'') started) = Response 200 (StatusBody job1) \<and>
   enabled (Close ''job-1'' (Some 0)) started \<and>
   run [Tick 600000, TimerFires ''job-1''] (step (Close ''job-1'' (Some 0)) started) = Some purged \<and>
   fst (GET_status admin (Some ''job-1'') purged) =
     Response 404 (ErrorBody ''Job not found or expired'')"
proof -
  have ne: "''job-1'' \<noteq> []" by simp
  have m: "map_of (activeCrawls started) ''job-1'' = Some job1" by (simp add: started_def)
  have en: "enabled (Close ''job-1'' (Some 0)) started" by (simp add: started_def)
  have r: "run [Tick 600000, TimerFires ''job-1''] (step (Close ''job-1'' (Some 0)) started)
             = Some purged"
    by (simp add: started_def purged_def eval_defs)
  note t = status_not_found [OF run_started require_admin_admin ne]
  from t m have a: "fst (GET_status admin (Some ''job-1'') started) = Response 200 (StatusBody job1)"
    by blast
  from t en r have b: "fst (GET_status admin (Some ''job-1'') purged) =
     Response 404 (ErrorBody ''Job not found or expired'')"
    by (metis list.set_intros(1,2))
  from run_started require_admin_admin a en r b show ?thesis by simp
qed

section \<open>Starting an operation (C4)\<close>

text \<open>
  C4. For an administrator and a body whose \<open>operation\<close> field is the string \<open>opn\<close>: if
  \<open>opn\<close> is not one of \<open>daily-update\<close>, \<open>full-crawl\<close>, \<open>process-content\<close>, the answer is
  the 400 error of an invalid operation and the state is unchanged, so no job is created;
  if it is one of them, the answer carries the new job id, the registry maps that id to a
  job with status \<open>running\<close> and progress 0, and every other entry of the registry is
  as before.
\<close>

theorem start_operation:
  assumes "require_admin r = None" and "bv \<noteq> JNull"
    and "body_field bv ''operation'' = Some (JStr opn)"
  shows "(opn \<notin> {''daily-update'', ''full-crawl'', ''process-content''} \<longrightarrow>
            POST_start r (Some bv) u s =
              (Response 400 (ErrorBody
                 ''Invalid operation. Must be: daily-update, full-crawl, or process-content''), s)) \<and>
         (opn \<in> {''daily-update'', ''full-crawl'', ''process-content''} \<longrightarrow>
            fst (POST_start r (Some bv) u s) =
              Response 200 (StartedBody u (''Started '' @ opn @ '' operation'')) \<and>
            map_of (activeCrawls (snd (POST_start r (Some bv) u s))) u =
              Some \<lparr>jobId = u, operation = opn, status = Running, progress = 0,
                    message = ''Starting '' @ opn @ ''...'', stats = None, error = None\<rparr> \<and>
            (\<forall>k. k \<noteq> u \<longrightarrow>
               map_of (activeCrawls (snd (POST_start r (Some bv) u s))) k =
               map_of (activeCrawls s) k))"
proof -
  have ne: "opn \<in> {''daily-update'', ''full-crawl'', ''process-content''} \<Longrightarrow> opn \<noteq> []"
    by auto
  show ?thesis
    using assms ne
    by (cases bv) (auto simp: POST_start_def Let_def operations_def update_conv')
qed

text \<open>
  The theorem at work: \<open>full-crawl\<close> is accepted, \<open>weekly\<close> is refused.
\<close>

theorem start_operation_witness:
  "require_admin admin = None \<and> JObj [(''operation'', JStr ''full-crawl'')] \<noteq> JNull \<and>
   body_field (JObj [(''operation'', JStr ''full-crawl'')]) ''operation'' = Some (JStr ''full-crawl'') \<and>
   fst (POST_start admin (Some (JObj [(''operation'', JStr ''full-crawl'')])) ''job-7'' init) =
     Response 200 (StartedBody ''job-7'' ''Started full-crawl operation'') \<and>
   body_field (JObj [(''operation'', JStr ''weekly'')]) ''operation'' = Some (JStr ''weekly'') \<and>
   POST_start admin (Some (JObj [(''operation'', JStr ''weekly'')])) ''job-8'' init =
     (Response 400 (ErrorBody
        ''Invalid operation. Must be: daily-update, full-crawl, or process-content''), init)"
proof -
  have n1: "JObj [(''operation'', JStr ''full-crawl'')] \<noteq> JNull" by simp
  have f1: "body_field (JObj [(''operation'', JStr ''full-crawl'')]) ''operation''
              = Some (JStr ''full-crawl'')" by simp
  have n2: "JObj [(''operation'', JStr ''weekly'')] \<noteq> JNull" by simp
  have f2: "body_field (JObj [(''operation'', JStr ''weekly'')]) ''operation''
              = Some (JStr ''weekly'')" by simp
  from start_operation [OF require_admin_admin n1 f1, of "''job-7''" init]
    start_operation [OF require_admin_admin n2 f2, of "''job-8''" init]
    require_admin_admin f1 f2
  show ?thesis by simp
qed

section \<open>The timeout of an ad-hoc crawl (C5)\<close>









section \<open>Uniqueness of the URL in the content table (C6)\<close>

lemma insert_row_ok:
  assumes "aws_content_ok t" and "insert_row r t = Inr t'"
  shows "aws_content_ok t'"
  using assms by (auto simp: aws_content_ok_def insert_row_def split: if_splits)

lemma upsert_columns:
  assumes "\<not> isNew t c"
  shows "map url (map (\<lambda>r. if url r = url c then c\<lparr>row_id := row_id r\<rparr> else r) t) = map url t"
    and "map row_id (map (\<lambda>r. if url r = url c then c\<lparr>row_id := row_id r\<rparr> else r) t) = map row_id t"
  by (induction t) auto

lemma upsert_ok:
  assumes "aws_content_ok t" and "upsert c t = Inr t'"
  shows "aws_content_ok t'"
proof (cases "isNew t c")
  case True
  with assms(2) have "insert_row c t = Inr t'" by (simp add: upsert_def)
  with assms(1) show ?thesis by (rule insert_row_ok)
next
  case False
  with assms(2) have tc: "title c \<noteq> None"
    and t': "t' = map (\<lambda>r. if url r = url c then c\<lparr>row_id := row_id r\<rparr> else r) t"
    by (auto simp: upsert_def split: if_splits)
  from False obtain r0 where "r0 \<in> set t" "url r0 = url c" by (auto simp: isNew_def)
  moreover from assms(1) \<open>r0 \<in> set t\<close> have "url r0 \<noteq> None"
    by (simp add: aws_content_ok_def)
  ultimately have uc: "url c \<noteq> None" by simp
  have "\<forall>r \<in> set t'. title r \<noteq> None \<and> url r \<noteq> None"
    using assms(1) tc uc by (auto simp: t' aws_content_ok_def)
  moreover have "map url t' = map url t" "map row_id t' = map row_id t"
    unfolding t' using upsert_columns [OF False] by simp_all
  ultimately show ?thesis using assms(1) by (simp add: aws_content_ok_def)
qed

lemma apply_write_ok:
  assumes "aws_content_ok t" and "apply_write w t = Inr t'"
  shows "aws_content_ok t'"
proof (cases w)
  case (Insert r)
  with assms show ?thesis by (auto intro: insert_row_ok)
next
  case (Upsert r)
  with assms show ?thesis by (auto intro: upsert_ok)
next
  case (InsertIfNew snapshot r)
  with assms show ?thesis by (auto intro: insert_row_ok split: if_splits)
qed

lemma apply_writes_ok: "aws_content_ok t \<Longrightarrow> aws_content_ok (apply_writes ws t)"
proof (induction ws arbitrary: t)
  case Nil
  then show ?case by simp
next
  case (Cons w ws)
  show ?case
  proof (cases "apply_write w t")
    case (Inl e)
    with Cons show ?thesis by simp
  next
    case (Inr t')
    with Cons.prems have "aws_content_ok t'" by (rule apply_write_ok)
    with Cons.IH Inr show ?thesis by simp
  qed
qed

text \<open>
  C6. Starting from a table that satisfies the constraints of its declaration, no
  sequence of inserts, upserts and inserts guarded by a stale duplicate check leaves two
  rows with the same URL. For a candidate whose URL is already stored: a duplicate check
  made on an empty snapshot says it is new, yet the insert is rejected by the table, with
  or without that check, and an upsert keeps the column of URLs as it is.
\<close>

theorem content_url_unique:
  assumes "aws_content_ok t"
  shows "distinct (map url (apply_writes ws t)) \<and>
         (\<forall>r. url r \<in> url ` set t \<longrightarrow>
            isNew [] r \<and>
            (\<exists>e. apply_write (Insert r) t = Inl e) \<and>
            (\<exists>e. apply_write (InsertIfNew [] r) t = Inl e) \<and>
            (title r \<noteq> None \<longrightarrow>
               (\<exists>t'. apply_write (Upsert r) t = Inr t' \<and> map url t' = map url t)))"
proof (intro conjI allI impI)
  from apply_writes_ok [OF assms] show "distinct (map url (apply_writes ws t))"
    by (simp add: aws_content_ok_def)
next
  fix r :: "'a aws_content_row_scheme"
  assume dup: "url r \<in> url ` set t"
  show "isNew [] r" by (simp add: isNew_def)
  from dup show "\<exists>e. apply_write (Insert r) t = Inl e" by (simp add: insert_row_def)
  from dup show "\<exists>e. apply_write (InsertIfNew [] r) t = Inl e"
    by (simp add: insert_row_def isNew_def)
  assume "title r \<noteq> None"
  with dup show "\<exists>t'. apply_write (Upsert r) t = Inr t' \<and> map url t' = map url t"
    using upsert_columns(1) [of t r] by (simp add: upsert_def isNew_def)
qed

text \<open>
  The theorem at work on two candidates with the same URL: the inserts of the second are
  unique violations, the upsert replaces the first under its id.
\<close>

theorem content_url_unique_witness:
  "aws_content_ok [post_a] \<and> url post_b \<in> url ` set [post_a] \<and> title post_b \<noteq> None \<and>
   distinct (map url (apply_writes [Insert post_b, InsertIfNew [] post_b, Upsert post_b] [post_a])) \<and>
   apply_write (Insert post_b) [post_a] = Inl UniqueViolation \<and>
   apply_write (InsertIfNew [] post_b) [post_a] = Inl UniqueViolation \<and>
   apply_write (Upsert post_b) [post_a] = Inr [post_b\<lparr>row_id := ''id-1''\<rparr>]"
proof -
  have ok: "aws_content_ok [post_a]" by (simp add: aws_content_ok_def post_a_def)
  have dup: "url post_b \<in> url ` set [post_a]" by (simp add: post_a_def post_b_def)
  have ti: "title post_b \<noteq> None" by (simp add: post_b_def)
  from content_url_unique [OF ok, of "[Insert post_b, InsertIfNew [] post_b, Upsert post_b]"]
  have "distinct (map url (apply_writes [Insert post_b, InsertIfNew [] post_b, Upsert post_b] [post_a]))"
    by (rule conjunct1)
  moreover have "apply_write (Insert post_b) [post_a] = Inl UniqueViolation"
    and "apply_write (InsertIfNew [] post_b) [post_a] = Inl UniqueViolation"
    and "apply_write (Upsert post_b) [post_a] = Inr [post_b\<lparr>row_id := ''id-1''\<rparr>]"
    by (simp_all add: insert_row_def upsert_def isNew_def post_a_def post_b_def)
  ultimately show ?thesis using ok dup ti by simp
qed

section \<open>Validation of an ad-hoc crawl (C7)\<close>








section \<open>The status query only reads (C8)\<close>

text \<open>
  C8. A status query, whoever sends it and whatever id it asks for, leaves the registry,
  the live workers, the pending timers, the clock and the issued ids as they are, and
  its answer depends on the registry alone: two states with the same registry get the
  same answer, whatever their workers and timers are.
\<close>

theorem status_query_read_only:
  "activeCrawls (snd (GET_status r q s)) = activeCrawls s \<and>
   workers (snd (GET_status r q s)) = workers s \<and>
   timers (snd (GET_status r q s)) = timers s \<and>
   now (snd (GET_status r q s)) = now s \<and>
   issued (snd (GET_status r q s)) = issued s \<and>
   (\<forall>s'. activeCrawls s' = activeCrawls s \<longrightarrow> fst (GET_status r q s') = fst (GET_status r q s))"
  by (simp add: GET_status_frame) (simp add: GET_status_def split: option.splits)

text \<open>
  The theorem at work: the answer for \<open>job-1\<close> is the same with and without its live
  worker.
\<close>

theorem status_query_read_only_witness:
  "activeCrawls (started\<lparr>workers := [], now := 5\<rparr>) = activeCrawls started \<and>
   fst (GET_status admin (Some ''job-1'') (started\<lparr>workers := [], now := 5\<rparr>)) =
     fst (GET_status admin (Some ''job-1'') started) \<and>
   activeCrawls (snd (GET_status admin (Some ''job-1'') started)) = activeCrawls started"
proof -
  have a: "activeCrawls (started\<lparr>workers := [], now := 5\<rparr>) = activeCrawls started" by simp
  from status_query_read_only [of admin "Some ''job-1''" started] a show ?thesis by blast
qed

section \<open>Progress values (C9)\<close>

lemma on_stdout_progress:
  assumes "map_of st j = Some job"
  shows "\<exists>job'. map_of (on_stdout j d st) j = Some job' \<and> status job' = status job \<and>
           progress job' =
             (if str_includes (trim d) ''Crawling AWS Blogs'' then 25
              else if str_includes (trim d) ''Crawling AWS YouTube'' then 50
              else if str_includes (trim d) ''Crawling AWS Documentation'' then 75
              else if str_includes (trim d) ''Processing content'' then 90
              else progress job)"
  using assms by (simp add: on_stdout_def Let_def update_conv')

lemma run_finished:
  "run [PostStart admin (start_body ''daily-update'') ''job-1'', Close ''job-1'' (Some 0)] init
     = Some finished"
  by (simp add: eval_defs finished_def job1_def)

lemma run_crashed:
  "run [PostStart admin (start_body ''daily-update'') ''job-1'', Close ''job-1'' (Some 1)] init
     = Some crashed"
proof -
  have sn: "show_nat 1 = ''1''" "show_nat (Suc 0) = ''1''" by code_simp+
  show ?thesis by (simp add: eval_defs crashed_def job1_def sn)
qed

text \<open>
  C9. For every job in a reachable registry: while it is running its progress is one of
  0, 25, 50, 75, 90; a progress of 100 is found on a completed job only; a failed job has
  progress 0. These values are assigned by the listeners of the job's worker: a chunk of
  its output sets the progress of the running job to 25, 50, 75 or 90 when the trimmed
  chunk contains \<open>Crawling AWS Blogs\<close>, \<open>Crawling AWS YouTube\<close>,
  \<open>Crawling AWS Documentation\<close> or \<open>Processing content\<close> (the first of them that
  matches, in this order) and leaves it as it is otherwise, the job staying running; the
  end of the worker makes the job completed with progress 100 when the exit code is 0 and
  failed with progress 0 otherwise.
\<close>

theorem progress_milestones:
  assumes "run es init = Some s" and "map_of (activeCrawls s) j = Some job"
  shows "(status job = Running \<longrightarrow> progress job \<in> {0, 25, 50, 75, 90}) \<and>
         (progress job = 100 \<longrightarrow> status job = Completed) \<and>
         (status job = Failed \<longrightarrow> progress job = 0) \<and>
         (\<forall>d. enabled (StdoutData j d) s \<longrightarrow>
            (\<exists>job'. map_of (activeCrawls (step (StdoutData j d) s)) j = Some job' \<and>
               status job = Running \<and> status job' = Running \<and>
               progress job' =
                 (if str_includes (trim d) ''Crawling AWS Blogs'' then 25
                  else if str_includes (trim d) ''Crawling AWS YouTube'' then 50
                  else if str_includes (trim d) ''Crawling AWS Documentation'' then 75
                  else if str_includes (trim d) ''Processing content'' then 90
                  else progress job))) \<and>
         (\<forall>c. enabled (Close j c) s \<longrightarrow>
            (\<exists>job'. map_of (activeCrawls (step (Close j c) s)) j = Some job' \<and>
               status job = Running \<and>
               (if c = Some 0 then status job' = Completed \<and> progress job' = 100
                else status job' = Failed \<and> progress job' = 0)))"
proof -
  have inv: "registry_inv s" using assms(1) by (rule reachable_inv)
  with assms(2) have ok: "job_ok job"
    and live: "status job = Running \<longleftrightarrow> j \<in> set (workers s)"
    by (auto simp: registry_inv_def)
  have a: "(status job = Running \<longrightarrow> progress job \<in> {0, 25, 50, 75, 90}) \<and>
         (progress job = 100 \<longrightarrow> status job = Completed) \<and>
         (status job = Failed \<longrightarrow> progress job = 0)"
    using ok by (cases "status job") (auto simp: job_ok_def)
  have b: "\<exists>job'. map_of (activeCrawls (step (StdoutData j d) s)) j = Some job' \<and>
               status job = Running \<and> status job' = Running \<and>
               progress job' =
                 (if str_includes (trim d) ''Crawling AWS Blogs'' then 25
                  else if str_includes (trim d) ''Crawling AWS YouTube'' then 50
                  else if str_includes (trim d) ''Crawling AWS Documentation'' then 75
                  else if str_includes (trim d) ''Processing content'' then 90
                  else progress job)"
    if "enabled (StdoutData j d) s" for d
  proof -
    from that live have r: "status job = Running" by simp
    from on_stdout_progress [OF assms(2), of d] r show ?thesis by auto
  qed
  have c: "\<exists>job'. map_of (activeCrawls (step (Close j c) s)) j = Some job' \<and>
               status job = Running \<and>
               (if c = Some 0 then status job' = Completed \<and> progress job' = 100
                else status job' = Failed \<and> progress job' = 0)"
    if "enabled (Close j c) s" for c
  proof -
    from that live have r: "status job = Running" by simp
    from on_close_result [OF assms(2), of c] r show ?thesis by auto
  qed
  from a b c show ?thesis by blast
qed

text \<open>
  The theorem at work on \<open>job-1\<close>: right after its start it is running at 0 and the
  marker of the YouTube stage takes it to 50; in its processing stage it is running at
  90 and the end of its worker takes it to completed and 100, or to failed and 0; after
  its worker closed it is completed at 100, or failed at 0.
\<close>

theorem progress_milestones_witness:
  "run [PostStart admin (start_body ''daily-update'') ''job-1''] init = Some started \<and>
   map_of (activeCrawls started) ''job-1'' = Some job1 \<and>
   status job1 = Running \<and> progress job1 = 0 \<and>
   enabled (StdoutData ''job-1'' ''  Crawling AWS YouTube playlists  '') started \<and>
   map_of (activeCrawls (step (StdoutData ''job-1'' ''  Crawling AWS YouTube playlists  '') started))
     ''job-1'' = Some (job1\<lparr>progress := 50, message := ''Crawling YouTube videos...''\<rparr>) \<and>
   run [PostStart admin (start_body ''daily-update'') ''job-1'',
        StdoutData ''job-1'' ''Processing content with AI''] init = Some processing \<and>
   map_of (activeCrawls processing) ''job-1'' =
     Some (job1\<lparr>progress := 90, message := ''Processing content with AI...''\<rparr>) \<and>
   enabled (Close ''job-1'' (Some 0)) processing \<and>
   map_option (\<lambda>job. (status job, progress job))
     (map_of (activeCrawls (step (Close ''job-1'' (Some 0)) processing)) ''job-1'') =
     Some (Completed, 100) \<and>
   enabled (Close ''job-1'' None) processing \<and>
   map_option (\<lambda>job. (status job, progress job))
     (map_of (activeCrawls (step (Close ''job-1'' None) processing)) ''job-1'') =
     Some (Failed, 0) \<and>
   run [PostStart admin (start_body ''daily-update'') ''job-1'', Close ''job-1'' (Some 0)] init
     = Some finished \<and>
   map_option (\<lambda>job. (status job, progress job)) (map_of (activeCrawls finished) ''job-1'') =
     Some (Completed, 100) \<and>
   run [PostStart admin (start_body ''daily-update'') ''job-1'', Close ''job-1'' (Some 1)] init
     = Some crashed \<and>
   map_option (\<lambda>job. (status job, progress job)) (map_of (activeCrawls crashed) ''job-1'') =
     Some (Failed, 0)"
proof -
  have m1: "map_of (activeCrawls started) ''job-1'' = Some job1" by (simp add: started_def)
  have m2: "map_of (activeCrawls processing) ''job-1'' =
     Some (job1\<lparr>progress := 90, message := ''Processing content with AI...''\<rparr>)"
    by (simp add: processing_def)
  have m3: "map_of (activeCrawls finished) ''job-1'' =
     Some (job1\<lparr>status := Completed, progress := 100,
                message := ''Crawl completed successfully!'',
                stats := Some \<lparr>total_processed = 0, successful = 0, failed = 0,
                               duplicates = 0\<rparr>\<rparr>)"
    by (simp add: finished_def)
  have m4: "map_of (activeCrawls crashed) ''job-1'' =
     Some (job1\<lparr>status := Failed, progress := 0, message := ''Crawl failed'',
                error := Some ''Process exited with code 1''\<rparr>)"
    by (simp add: crashed_def)
  have e1: "enabled (StdoutData ''job-1'' ''  Crawling AWS YouTube playlists  '') started"
    by (simp add: started_def)
  have e2: "enabled (Close ''job-1'' (Some 0)) processing"
    and e3: "enabled (Close ''job-1'' None) processing"
    by (simp_all add: processing_def)
  note t1 = progress_milestones [OF run_started m1]
  note t2 = progress_milestones [OF run_processing m2]
  note t3 = progress_milestones [OF run_finished m3]
  note t4 = progress_milestones [OF run_crashed m4]
  note out = t1 [THEN conjunct2, THEN conjunct2, THEN conjunct2, THEN conjunct1, rule_format,
      OF e1]
  note ok = t2 [THEN conjunct2, THEN conjunct2, THEN conjunct2, THEN conjunct2, rule_format,
      OF e2]
  note ko = t2 [THEN conjunct2, THEN conjunct2, THEN conjunct2, THEN conjunct2, rule_format,
      OF e3]
  from out have a: "status job1 = Running" by blast
  have b: "map_of (activeCrawls (step (StdoutData ''job-1'' ''  Crawling AWS YouTube playlists  '') started))
     ''job-1'' = Some (job1\<lparr>progress := 50, message := ''Crawling YouTube videos...''\<rparr>)"
    by (simp add: started_def eval_defs)
  from ok
  obtain jc where "map_of (activeCrawls (step (Close ''job-1'' (Some 0)) processing)) ''job-1''
      = Some jc" and "status jc = Completed \<and> progress jc = 100"
    by (auto simp del: step.simps)
  then have c: "map_option (\<lambda>job. (status job, progress job))
     (map_of (activeCrawls (step (Close ''job-1'' (Some 0)) processing)) ''job-1'') =
     Some (Completed, 100)" by (simp del: step.simps)
  from ko
  obtain jf where "map_of (activeCrawls (step (Close ''job-1'' None) processing)) ''job-1''
      = Some jf" and "status jf = Failed \<and> progress jf = 0"
    by (auto simp del: step.simps)
  then have d: "map_option (\<lambda>job. (status job, progress job))
     (map_of (activeCrawls (step (Close ''job-1'' None) processing)) ''job-1'') =
     Some (Failed, 0)" by (simp del: step.simps)
  from t3 [THEN conjunct1] t3 [THEN conjunct2, THEN conjunct1]
  have e: "map_option (\<lambda>job. (status job, progress job))
      (map_of (activeCrawls finished) ''job-1'') = Some (Completed, 100)"
    by (simp add: m3 job1_def)
  from t4 [THEN conjunct2, THEN conjunct2, THEN conjunct1]
  have f: "map_option (\<lambda>job. (status job, progress job))
      (map_of (activeCrawls crashed) ''job-1'') = Some (Failed, 0)"
    by (simp add: m4 job1_def)
  have z: "progress job1 = 0" by (simp add: job1_def)
  from run_started m1 a z e1 b run_processing m2 e2 c e3 d run_finished e run_crashed f
  show ?thesis by (simp only: simp_thms)
qed

section \<open>The admin gate (C10)\<close>

text \<open>
  C10. On each of the three routes: a requester who is not authenticated gets the 401
  error, and one who is authenticated but has neither the role \<open>admin\<close> nor an email
  containing \<open>admin\<close> gets the 403 error; in both cases the state is returned
  unchanged and the ad-hoc route spawns nothing.
\<close>

theorem admin_gate:
  "(authError r \<or> user r = None \<longrightarrow>
      POST_start r b u s = (Response 401 (ErrorBody ''Unauthorized''), s) \<and>
      GET_status r q s = (Response 401 (ErrorBody ''Unauthorized''), s) \<and>
      POST_custom url_parses spawn_throws JSON_parse r b w =
        \<lparr>response = Response 401 (ErrorBody ''Unauthorized''), spawned = [],
         sigterm_sent = False, worker_survives = False, waited = 0\<rparr>) \<and>
   (\<not> authError r \<and> user r \<noteq> None \<and>
    \<not> (\<exists>pr. profile r = Some pr \<and>
           (role pr = Some ''admin'' \<or> (\<exists>pre post. email pr = Some (pre @ ''admin'' @ post)))) \<longrightarrow>
      POST_start r b u s = (Response 403 (ErrorBody ''Forbidden: Admin access required''), s) \<and>
      GET_status r q s = (Response 403 (ErrorBody ''Forbidden: Admin access required''), s) \<and>
      POST_custom url_parses spawn_throws JSON_parse r b w =
        \<lparr>response = Response 403 (ErrorBody ''Forbidden: Admin access required''), spawned = [],
         sigterm_sent = False, worker_survives = False, waited = 0\<rparr>)"
proof (intro conjI impI)
  assume "authError r \<or> user r = None"
  then have g: "require_admin r = Some (Response 401 (ErrorBody ''Unauthorized''))"
    by (auto simp: require_admin_def)
  show "POST_start r b u s = (Response 401 (ErrorBody ''Unauthorized''), s)"
    by (simp add: POST_start_def g)
  show "GET_status r q s = (Response 401 (ErrorBody ''Unauthorized''), s)"
    by (simp add: GET_status_def g)
  show "POST_custom url_parses spawn_throws JSON_parse r b w =
        \<lparr>response = Response 401 (ErrorBody ''Unauthorized''), spawned = [],
         sigterm_sent = False, worker_survives = False, waited = 0\<rparr>"
    by (simp add: POST_custom_def g reject_def)
next
  assume "\<not> authError r \<and> user r \<noteq> None \<and>
    \<not> (\<exists>pr. profile r = Some pr \<and>
           (role pr = Some ''admin'' \<or> (\<exists>pre post. email pr = Some (pre @ ''admin'' @ post))))"
  then have g: "require_admin r = Some (Response 403 (ErrorBody ''Forbidden: Admin access required''))"
    by (simp add: require_admin_def isAdmin_iff)
  show "POST_start r b u s = (Response 403 (ErrorBody ''Forbidden: Admin access required''), s)"
    by (simp add: POST_start_def g)
  show "GET_status r q s = (Response 403 (ErrorBody ''Forbidden: Admin access required''), s)"
    by (simp add: GET_status_def g)
  show "POST_custom url_parses spawn_throws JSON_parse r b w =
        \<lparr>response = Response 403 (ErrorBody ''Forbidden: Admin access required''), spawned = [],
         sigterm_sent = False, worker_survives = False, waited = 0\<rparr>"
    by (simp add: POST_custom_def g reject_def)
qed

text \<open>
  The theorem at work on a requester without a session and on one whose profile is not
  that of an administrator.
\<close>

theorem admin_gate_witness:
  "(authError anonymous \<or> user anonymous = None) \<and>
   POST_start anonymous (start_body ''full-crawl'') ''job-9'' started =
     (Response 401 (ErrorBody ''Unauthorized''), started) \<and>
   GET_status anonymous (Some ''job-1'') started =
     (Response 401 (ErrorBody ''Unauthorized''), started) \<and>
   spawned (POST_custom has_scheme nul_refused parse_empty anonymous
              (custom_body ''blog'' ''https://aws.amazon.com/blogs/a'') quick) = [] \<and>
   \<not> authError visitor \<and> user visitor \<noteq> None \<and> \<not> isAdmin (profile visitor) \<and>
   POST_start visitor (start_body ''full-crawl'') ''job-9'' started =
     (Response 403 (ErrorBody ''Forbidden: Admin access required''), started) \<and>
   GET_status visitor (Some ''job-1'') started =
     (Response 403 (ErrorBody ''Forbidden: Admin access required''), started) \<and>
   POST_custom has_scheme nul_refused parse_empty visitor
     (custom_body ''blog'' ''https://aws.amazon.com/blogs/a'') quick =
     \<lparr>response = Response 403 (ErrorBody ''Forbidden: Admin access required''), spawned = [],
         sigterm_sent = False, worker_survives = False, waited = 0\<rparr>"
proof -
  have a: "authError anonymous \<or> user anonymous = None" by (simp add: anonymous_def)
  have v: "\<not> authError visitor \<and> user visitor \<noteq> None" by (simp add: visitor_def)
  have n: "\<not> isAdmin (profile visitor)" by (simp add: visitor_def isAdmin_def)
  have n': "\<not> (\<exists>pr. profile visitor = Some pr \<and>
           (role pr = Some ''admin'' \<or> (\<exists>pre post. email pr = Some (pre @ ''admin'' @ post))))"
    using n unfolding isAdmin_iff .
  from admin_gate [of anonymous "start_body ''full-crawl''" "''job-9''" started "Some ''job-1''"
      has_scheme nul_refused parse_empty quick] a
  have "POST_start anonymous (start_body ''full-crawl'') ''job-9'' started =
     (Response 401 (ErrorBody ''Unauthorized''), started)"
    and "GET_status anonymous (Some ''job-1'') started =
     (Response 401 (ErrorBody ''Unauthorized''), started)" by simp_all
  moreover from admin_gate [of anonymous "custom_body ''blog'' ''https://aws.amazon.com/blogs/a''"
      "''job-9''" started "Some ''job-1''" has_scheme nul_refused parse_empty quick] a
  have "spawned (POST_custom has_scheme nul_refused parse_empty anonymous
              (custom_body ''blog'' ''https://aws.amazon.com/blogs/a'') quick) = []" by simp
  moreover from admin_gate [of visitor "start_body ''full-crawl''" "''job-9''" started "Some ''job-1''"
      has_scheme nul_refused parse_empty quick] v n'
  have "POST_start visitor (start_body ''full-crawl'') ''job-9'' started =
     (Response 403 (ErrorBody ''Forbidden: Admin access required''), started)"
    and "GET_status visitor (Some ''job-1'') started =
     (Response 403 (ErrorBody ''Forbidden: Admin access required''), started)" by simp_all
  moreover from admin_gate [of visitor "custom_body ''blog'' ''https://aws.amazon.com/blogs/a''"
      "''job-9''" started "Some ''job-1''" has_scheme nul_refused parse_empty quick] v n'
  have "POST_custom has_scheme nul_refused parse_empty visitor
     (custom_body ''blog'' ''https://aws.amazon.com/blogs/a'') quick =
     \<lparr>response = Response 403 (ErrorBody ''Forbidden: Admin access required''), spawned = [],
         sigterm_sent = False, worker_survives = False, waited = 0\<rparr>" by simp
  ultimately show ?thesis using a v n by simp
qed

end
